theory Spec2Isabelle
  imports Main "HOL-Library.Char_ord" "HOL-Library.List_Lexorder"
begin

section \<open>Strings and Python's truthiness\<close>

text \<open>
  The question of a request is a Python \<open>str\<close>: a sequence of Unicode code points. What
  \<open>str.strip()\<close> removes depends on the code points, so a question is a list of code
  points. Source identifiers, chunk texts and answers are only compared, tested for
  emptiness and concatenated; they are \<open>string\<close>s.
\<close>

type_synonym ustring = "nat list"

type_synonym exn = string

text \<open>The code points for which \<open>str.isspace()\<close> holds (CPython's whitespace table).\<close>

definition py_isspace :: "nat \<Rightarrow> bool" where
  "py_isspace c \<longleftrightarrow>
     (9 \<le> c \<and> c \<le> 13) \<or> (28 \<le> c \<and> c \<le> 32) \<or> c = 133 \<or> c = 160 \<or> c = 5760 \<or>
     (8192 \<le> c \<and> c \<le> 8202) \<or> c = 8232 \<or> c = 8233 \<or> c = 8239 \<or> c = 8287 \<or> c = 12288"

text \<open>\<open>s.strip()\<close>: leading and trailing whitespace removed.\<close>

definition strip :: "ustring \<Rightarrow> ustring" where
  "strip s = rev (dropWhile py_isspace (rev (dropWhile py_isspace s)))"

text \<open>\<open>x or y\<close> where \<open>x\<close> is \<open>None\<close> or a string: \<open>None\<close> and \<open>""\<close> are falsy.\<close>

fun or_str :: "string option \<Rightarrow> string \<Rightarrow> string" where
  "or_str None y = y"
| "or_str (Some x) y = (if x = [] then y else x)"

text \<open>\<open>x or y\<close> where \<open>x\<close> is a list: the empty list is falsy.\<close>

definition or_list :: "'a list \<Rightarrow> 'a list \<Rightarrow> 'a list" where
  "or_list x y = (if x = [] then y else x)"

text \<open>\<open>d.get(key, default)\<close> on a looked-up value.\<close>

fun get_default :: "'a option \<Rightarrow> 'a \<Rightarrow> 'a" where
  "get_default None y = y"
| "get_default (Some x) y = x"

text \<open>\<open>sep.join(parts)\<close>.\<close>

fun join :: "string \<Rightarrow> string list \<Rightarrow> string" where
  "join sep [] = []"
| "join sep [x] = x"
| "join sep (x # y # ys) = x @ sep @ join sep (y # ys)"

text \<open>\<open>str(n)\<close> of a natural number, in decimal.\<close>

function str_nat :: "nat \<Rightarrow> string" where
  "str_nat n = (if n < 10 then [char_of (48 + n)] else str_nat (n div 10) @ [char_of (48 + n mod 10)])"
  by pat_completeness auto
termination
  by (relation "measure id") auto

declare str_nat.simps [simp del]

section \<open>Python sets\<close>

text \<open>
  A Python \<open>set\<close> of strings is kept as the sequence of the \<open>add\<close> calls that built it.
  Which elements it holds is the set of that sequence. The order in which it is iterated is
  not a function of its elements alone: it depends on the hash values the strings have in
  the process and on the order of the insertions, so \<open>list(s)\<close> is given the whole
  sequence.
\<close>

type_synonym pyset = "string list"

definition set_add :: "pyset \<Rightarrow> string \<Rightarrow> pyset" where
  "set_add S x = S @ [x]"

section \<open>Documents\<close>

text \<open>
  A langchain \<open>Document\<close>: its text and its metadata dictionary. The metadata values the
  program reads are the values of the key \<open>"source"\<close>, which are strings.
\<close>

record document =
  page_content :: string
  metadata :: "string \<rightharpoonup> string"

section \<open>Effects: port calls, failures, the trace\<close>

datatype engine = Graph | Chain

text \<open>
  What a request does outside the process is recorded in a trace: which pipeline \<open>ask\<close>
  called, every call of the Embedding Port (with the text embedded), what the index search
  returned, and every call of the Generation Port (with the context and the question).
\<close>

datatype event =
    Invoke engine
  | EmbedCall ustring
  | Retrieved "document list"
  | GenerateCall string ustring

text \<open>A computation either raises (\<open>Inl\<close>) or returns (\<open>Inr\<close>), and leaves a trace.\<close>

type_synonym 'a eff = "(exn + 'a) \<times> event list"

definition ret :: "'a \<Rightarrow> 'a eff" where
  "ret x = (Inr x, [])"

definition emit :: "event \<Rightarrow> unit eff" where
  "emit e = (Inr (), [e])"

definition port :: "exn + 'a \<Rightarrow> 'a eff" where
  "port r = (r, [])"

definition bind_eff :: "'a eff \<Rightarrow> ('a \<Rightarrow> 'b eff) \<Rightarrow> 'b eff" where
  "bind_eff m f =
     (case m of
        (Inl e, tr) \<Rightarrow> (Inl e, tr)
      | (Inr x, tr) \<Rightarrow> (case f x of (r, tr') \<Rightarrow> (r, tr @ tr')))"

text \<open>
  The collaborators of the program, as parameters: the Embedding Port, the similarity
  search of the vector store, the Generation Port (given the context that is put into the
  system prompt and the question), what \<open>list(s)\<close> returns in this process for a set
  built by a sequence of insertions (\<open>set_iter\<close>), and the two module-level values
  \<open>LANGGRAPH_AVAILABLE\<close> and \<open>cfg.TOP_K\<close>.
\<close>

record ('vs, 'vec) env =
  embed_query :: "ustring \<Rightarrow> exn + 'vec"
  similarity_search :: "'vs \<Rightarrow> 'vec \<Rightarrow> int \<Rightarrow> exn + document list"
  llm_invoke :: "string \<Rightarrow> ustring \<Rightarrow> exn + string"
  set_iter :: "pyset \<Rightarrow> string list"
  LANGGRAPH_AVAILABLE :: bool
  TOP_K :: int

text \<open>
  \<open>vectorstore.as_retriever(search_type="similarity", search_kwargs={"k": top_k})\<close>,
  invoked on a question: the question is embedded, the index is searched with the vector.
\<close>

definition retriever_invoke :: "('vs, 'vec) env \<Rightarrow> 'vs \<Rightarrow> int \<Rightarrow> ustring \<Rightarrow> document list eff" where
  "retriever_invoke env vs k q =
     bind_eff (emit (EmbedCall q)) (\<lambda>_.
     bind_eff (port (embed_query env q)) (\<lambda>v.
     bind_eff (port (similarity_search env vs v k)) (\<lambda>docs.
     bind_eff (emit (Retrieved docs)) (\<lambda>_.
     ret docs))))"

section \<open>qa.py: the Chain variant\<close>

datatype 'vs retrieval_chain = RetrievalChain 'vs int

definition build_retrieval_chain :: "'vs \<Rightarrow> int \<Rightarrow> 'vs retrieval_chain" where
  "build_retrieval_chain vectorstore top_k = RetrievalChain vectorstore top_k"

text \<open>The dictionary \<open>chain.invoke\<close> returns, with the keys \<open>answer_with_sources\<close> reads.\<close>

record chain_res =
  res_answer :: "string option"
  res_result :: "string option"
  res_context :: "document list option"
  res_source_documents :: "document list option"

text \<open>
  \<open>create_retrieval_chain(retriever, create_stuff_documents_chain(llm, prompt))\<close>, invoked:
  the retriever's documents become \<open>"context"\<close>, their texts joined by a blank line are
  put into the prompt, and the model's text becomes \<open>"answer"\<close>.
\<close>

fun chain_invoke :: "('vs, 'vec) env \<Rightarrow> 'vs retrieval_chain \<Rightarrow> ustring \<Rightarrow> chain_res eff" where
  "chain_invoke env (RetrievalChain vs k) q =
     bind_eff (retriever_invoke env vs k q) (\<lambda>docs.
     bind_eff (emit (GenerateCall (join ''\<newline>\<newline>'' (map page_content docs)) q)) (\<lambda>_.
     bind_eff (port (llm_invoke env (join ''\<newline>\<newline>'' (map page_content docs)) q)) (\<lambda>a.
     ret \<lparr>res_answer = Some a, res_result = None,
          res_context = Some docs, res_source_documents = None\<rparr>)))"

definition answer_with_sources ::
  "('vs, 'vec) env \<Rightarrow> 'vs retrieval_chain \<Rightarrow> ustring \<Rightarrow> (string \<times> pyset) eff" where
  "answer_with_sources env chain question =
     bind_eff (chain_invoke env chain question) (\<lambda>res.
       let answer = (if get_default (res_answer res) [] \<noteq> [] then get_default (res_answer res) []
                     else get_default (res_result res) []);
           context_docs = or_list (get_default (res_context res) [])
                                  (get_default (res_source_documents res) []);
           sources = fold (\<lambda>d S. set_add S (or_str (metadata d ''source'') ''unknown'')) context_docs []
       in ret (answer, sources))"

section \<open>qa\_graph.py: the staged variant\<close>

datatype 'vs graph_chain = GraphChain 'vs int

definition build_langgraph_chain :: "'vs \<Rightarrow> int \<Rightarrow> 'vs graph_chain" where
  "build_langgraph_chain vectorstore top_k = GraphChain vectorstore top_k"

record QAState =
  qa_question :: "ustring option"
  qa_docs :: "document list option"
  qa_answer :: "string option"
  qa_sources :: "pyset option"

definition format_context :: "document list \<Rightarrow> string" where
  "format_context docs =
     join ''\<newline>\<newline>''
       (map (\<lambda>(i, d). ''['' @ str_nat i @ ''] ('' @ get_default (metadata d ''source'') ''unknown''
                        @ '')\<newline>'' @ page_content d)
            (zip [1 ..< Suc (length docs)] docs))"

text \<open>
  The two nodes. A node returns the keys it sets, and the graph merges them into the state;
  \<open>state["question"]\<close> raises \<open>KeyError\<close> when the key is absent. The set comprehension
  of \<open>generate\<close> adds the identifiers in the order of the documents.
\<close>

definition retrieve :: "('vs, 'vec) env \<Rightarrow> 'vs \<Rightarrow> int \<Rightarrow> QAState \<Rightarrow> QAState eff" where
  "retrieve env vs k state =
     (case qa_question state of
        None \<Rightarrow> (Inl ''KeyError: question'', [])
      | Some q \<Rightarrow>
          bind_eff (retriever_invoke env vs k q) (\<lambda>docs.
          ret (state\<lparr>qa_docs := Some docs\<rparr>)))"

definition generate :: "('vs, 'vec) env \<Rightarrow> QAState \<Rightarrow> QAState eff" where
  "generate env state =
     (let docs = get_default (qa_docs state) [];
          ctx = format_context docs
      in case qa_question state of
           None \<Rightarrow> (Inl ''KeyError: question'', [])
         | Some q \<Rightarrow>
             bind_eff (emit (GenerateCall ctx q)) (\<lambda>_.
             bind_eff (port (llm_invoke env ctx q)) (\<lambda>text.
             let sources = fold (\<lambda>d S. set_add S (get_default (metadata d ''source'') ''unknown''))
                                docs []
             in ret (state\<lparr>qa_answer := Some text, qa_sources := Some sources\<rparr>))))"

text \<open>The compiled graph: entry point \<open>retrieve\<close>, then \<open>generate\<close>, then the end.\<close>

fun graph_invoke :: "('vs, 'vec) env \<Rightarrow> 'vs graph_chain \<Rightarrow> QAState \<Rightarrow> QAState eff" where
  "graph_invoke env (GraphChain vs k) state =
     bind_eff (retrieve env vs k state) (\<lambda>state'. generate env state')"

definition answer_with_langgraph ::
  "('vs, 'vec) env \<Rightarrow> 'vs graph_chain \<Rightarrow> ustring \<Rightarrow> (string \<times> pyset) eff" where
  "answer_with_langgraph env chain question =
     bind_eff (graph_invoke env chain
                 \<lparr>qa_question = Some question, qa_docs = None, qa_answer = None, qa_sources = None\<rparr>)
       (\<lambda>result. ret (get_default (qa_answer result) [], get_default (qa_sources result) []))"

section \<open>main.py: the \<open>/ask\<close> route\<close>

record 'vs app_state =
  vectorstore :: "'vs option"
  retrieval_chain :: "'vs retrieval_chain option"
  graph_chain :: "'vs graph_chain option"
  use_langgraph :: bool

record AskRequest =
  question :: ustring

datatype http_exception = HTTPException int string

record response =
  answer :: string
  sources :: "string list"

text \<open>The local variable \<open>use_graph\<close>: per-call override, then the default, then the fallback.\<close>

fun use_graph :: "('vs, 'vec) env \<Rightarrow> 'vs app_state \<Rightarrow> engine option \<Rightarrow> bool" where
  "use_graph env st (Some Graph) = (LANGGRAPH_AVAILABLE env \<and> graph_chain st \<noteq> None)"
| "use_graph env st (Some Chain) = False"
| "use_graph env st None = (use_langgraph st \<and> LANGGRAPH_AVAILABLE env \<and> graph_chain st \<noteq> None)"

text \<open>
  The body of the \<open>try\<close> block once a pipeline is chosen: an exception of the pipeline
  becomes the status 500, a result becomes the response with \<open>list(sources)\<close>.
\<close>

definition respond ::
  "('vs, 'vec) env \<Rightarrow> 'vs app_state \<Rightarrow> engine \<Rightarrow> (string \<times> pyset) eff
     \<Rightarrow> (http_exception + response) \<times> 'vs app_state \<times> event list" where
  "respond env st e run =
     (case run of
        (Inl err, tr) \<Rightarrow> (Inl (HTTPException 500 (''Answering failed: '' @ err)), st, Invoke e # tr)
      | (Inr (a, srcs), tr) \<Rightarrow> (Inr \<lparr>answer = a, sources = set_iter env srcs\<rparr>, st, Invoke e # tr))"

definition ask ::
  "('vs, 'vec) env \<Rightarrow> 'vs app_state \<Rightarrow> AskRequest \<Rightarrow> engine option
     \<Rightarrow> (http_exception + response) \<times> 'vs app_state \<times> event list" where
  "ask env st req eng =
     (case vectorstore st of
        None \<Rightarrow>
          (Inl (HTTPException 400 ''Knowledge base is empty. Upload documents via /upload first.''),
           st, [])
      | Some vs \<Rightarrow>
          if strip (question req) = [] then
            (Inl (HTTPException 400 ''Question must not be empty.''), st, [])
          else
            (case (use_graph env st eng, graph_chain st) of
               (True, Some g) \<Rightarrow>
                 respond env st Graph (answer_with_langgraph env g (strip (question req)))
             | _ \<Rightarrow>
                 (case retrieval_chain st of
                    None \<Rightarrow>
                      respond env
                        (st\<lparr>retrieval_chain := Some (build_retrieval_chain vs (TOP_K env))\<rparr>)
                        Chain
                        (answer_with_sources env (build_retrieval_chain vs (TOP_K env))
                           (strip (question req)))
                  | Some c \<Rightarrow>
                      respond env st Chain (answer_with_sources env c (strip (question req))))))"

section \<open>ingestion.py: splitting documents\<close>

text \<open>
  \<open>splitter.split_documents(docs)\<close> of langchain's \<open>TextSplitter\<close>: the text of every
  document is split, and every piece becomes a document with a copy of the metadata of the
  document it comes from. How a text is split is the parameter \<open>split_text\<close>.
\<close>

definition split_documents :: "(string \<Rightarrow> string list) \<Rightarrow> document list \<Rightarrow> document list" where
  "split_documents split_text docs =
     concat (map (\<lambda>d. map (\<lambda>t. \<lparr>page_content = t, metadata = metadata d\<rparr>)
                           (split_text (page_content d))) docs)"

text \<open>
  \<open>split_text_documents\<close>. Constructing the splitter for a chunk size and an overlap may
  raise (the parameter \<open>make_splitter\<close>); the loop then sets the key \<open>"source"\<close> of every
  chunk to \<open>c.metadata.get("source") or "unknown"\<close>.
\<close>

definition split_text_documents ::
  "(int \<Rightarrow> int \<Rightarrow> exn + (string \<Rightarrow> string list)) \<Rightarrow> document list \<Rightarrow> int \<Rightarrow> int
     \<Rightarrow> exn + document list" where
  "split_text_documents make_splitter docs chunk_size chunk_overlap =
     (case make_splitter chunk_size chunk_overlap of
        Inl e \<Rightarrow> Inl e
      | Inr split_text \<Rightarrow>
          Inr (map (\<lambda>c. c\<lparr>metadata :=
                            (metadata c)(''source'' \<mapsto> or_str (metadata c ''source'') ''unknown'')\<rparr>)
                   (split_documents split_text docs)))"

section \<open>ingestion.py: restoring the index\<close>










section \<open>Observations on a request\<close>

text \<open>The pipelines a trace shows \<open>ask\<close> to have called, in order.\<close>

fun invoked :: "event list \<Rightarrow> engine list" where
  "invoked [] = []"
| "invoked (Invoke e # tr) = e # invoked tr"
| "invoked (EmbedCall q # tr) = invoked tr"
| "invoked (Retrieved docs # tr) = invoked tr"
| "invoked (GenerateCall c q # tr) = invoked tr"

text \<open>
  The identifier a variant reads off a retrieved chunk: \<open>answer_with_sources\<close> computes
  \<open>(d.metadata or {}).get("source") or "unknown"\<close>, the node \<open>generate\<close> computes
  \<open>(d.metadata or {}).get("source", "unknown")\<close>.
\<close>

fun source_of :: "engine \<Rightarrow> document \<Rightarrow> string" where
  "source_of Chain d = or_str (metadata d ''source'') ''unknown''"
| "source_of Graph d = get_default (metadata d ''source'') ''unknown''"

text \<open>The context a variant hands to the Generation Port.\<close>

fun context_of :: "engine \<Rightarrow> document list \<Rightarrow> string" where
  "context_of Chain docs = join ''\<newline>\<newline>'' (map page_content docs)"
| "context_of Graph docs = format_context docs"

text \<open>
  Both variants, written out step by step: embed, search, generate, each of which may raise.
  \<open>answer_with_sources\<close> and \<open>answer_with_langgraph\<close> are shown below to compute this.
\<close>

definition pipeline ::
  "('vs, 'vec) env \<Rightarrow> 'vs \<Rightarrow> int \<Rightarrow> engine \<Rightarrow> ustring \<Rightarrow> (string \<times> pyset) eff" where
  "pipeline env vs k e q =
     (case embed_query env q of
        Inl x \<Rightarrow> (Inl x, [EmbedCall q])
      | Inr v \<Rightarrow>
          (case similarity_search env vs v k of
             Inl x \<Rightarrow> (Inl x, [EmbedCall q])
           | Inr docs \<Rightarrow>
               (case llm_invoke env (context_of e docs) q of
                  Inl x \<Rightarrow> (Inl x, [EmbedCall q, Retrieved docs, GenerateCall (context_of e docs) q])
                | Inr a \<Rightarrow>
                    (Inr (a, map (source_of e) docs),
                     [EmbedCall q, Retrieved docs, GenerateCall (context_of e docs) q]))))"

text \<open>
  What \<open>list(s)\<close> satisfies whatever the order: it lists the elements that were added to
  the set, each once.
\<close>

definition lists_each_once :: "(pyset \<Rightarrow> string list) \<Rightarrow> bool" where
  "lists_each_once it \<longleftrightarrow> (\<forall>S. set (it S) = set S \<and> distinct (it S))"

text \<open>
  What a request returns when the pipeline it called has run: an exception of the pipeline
  is the status 500, a result is the response.
\<close>

fun http_result ::
  "('vs, 'vec) env \<Rightarrow> exn + string \<times> pyset \<Rightarrow> http_exception + response" where
  "http_result env (Inl err) = Inl (HTTPException 500 (''Answering failed: '' @ err))"
| "http_result env (Inr (a, S)) = Inr \<lparr>answer = a, sources = set_iter env S\<rparr>"

text \<open>
  The chain pipeline a request uses: the one of the state, or one built over the index with
  \<open>cfg.TOP_K\<close> when the state has none.
\<close>

definition chain_in_use :: "('vs, 'vec) env \<Rightarrow> 'vs app_state \<Rightarrow> 'vs \<Rightarrow> 'vs retrieval_chain" where
  "chain_in_use env st vs =
     (case retrieval_chain st of None \<Rightarrow> build_retrieval_chain vs (TOP_K env) | Some c \<Rightarrow> c)"

text \<open>
  A request was served by the chain variant: its result is that of \<open>answer_with_sources\<close>
  on the chain pipeline and the stripped question, its port calls are those
  \<open>answer_with_sources\<close> made, and the state holds the chain pipeline.
\<close>

definition served_by_chain ::
  "('vs, 'vec) env \<Rightarrow> 'vs app_state \<Rightarrow> 'vs \<Rightarrow> AskRequest
     \<Rightarrow> (http_exception + response) \<times> 'vs app_state \<times> event list \<Rightarrow> bool" where
  "served_by_chain env st vs req r \<longleftrightarrow>
     fst r = http_result env
               (fst (answer_with_sources env (chain_in_use env st vs) (strip (question req)))) \<and>
     fst (snd r) = st\<lparr>retrieval_chain := Some (chain_in_use env st vs)\<rparr> \<and>
     snd (snd r) =
       Invoke Chain # snd (answer_with_sources env (chain_in_use env st vs) (strip (question req)))"

text \<open>
  A request was served by the staged variant: the same with \<open>answer_with_langgraph\<close> on the
  staged pipeline of the state, which is left unchanged.
\<close>

definition served_by_staged ::
  "('vs, 'vec) env \<Rightarrow> 'vs app_state \<Rightarrow> AskRequest
     \<Rightarrow> (http_exception + response) \<times> 'vs app_state \<times> event list \<Rightarrow> bool" where
  "served_by_staged env st req r \<longleftrightarrow>
     (\<exists>g. graph_chain st = Some g \<and>
          fst r = http_result env (fst (answer_with_langgraph env g (strip (question req)))) \<and>
          fst (snd r) = st \<and>
          snd (snd r) = Invoke Graph # snd (answer_with_langgraph env g (strip (question req))))"

text \<open>The distinct elements of a sequence in the order of their first occurrence.\<close>

fun first_occurrences :: "'a list \<Rightarrow> 'a list" where
  "first_occurrences [] = []"
| "first_occurrences (x # xs) = x # filter (\<lambda>y. y \<noteq> x) (first_occurrences xs)"

section \<open>Fixtures for concrete evaluation\<close>

text \<open>
  A small concrete system: the index is the list of its chunks, the Embedding Port maps a
  text to its length, the search returns the first \<open>k\<close> chunks, the Generation Port
  answers \<open>Paris\<close>. A set is iterated in an order \<open>it\<close> of its elements, whatever the
  insertions were; with \<open>sorted_list_of_set\<close> that is the alphabetical order.
\<close>

definition demo_env :: "(string set \<Rightarrow> string list) \<Rightarrow> (document list, nat) env" where
  "demo_env it =
     \<lparr>embed_query = (\<lambda>q. Inr (length q)),
      similarity_search = (\<lambda>vs v k. Inr (take (nat k) vs)),
      llm_invoke = (\<lambda>ctx q. Inr ''Paris''),
      set_iter = (\<lambda>S. it (set S)), LANGGRAPH_AVAILABLE = True, TOP_K = 4\<rparr>"

definition demo_doc :: "string \<Rightarrow> document" where
  "demo_doc s =
     \<lparr>page_content = ''Paris is the capital of France.'', metadata = [''source'' \<mapsto> s]\<rparr>"

definition demo_state :: "document list \<Rightarrow> document list app_state" where
  "demo_state docs =
     \<lparr>vectorstore = Some docs, retrieval_chain = Some (build_retrieval_chain docs 4),
      graph_chain = Some (build_langgraph_chain docs 4), use_langgraph = True\<rparr>"

definition empty_state :: "document list app_state" where
  "empty_state =
     \<lparr>vectorstore = None, retrieval_chain = None, graph_chain = None, use_langgraph = True\<rparr>"

definition chain_only_state :: "document list \<Rightarrow> document list app_state" where
  "chain_only_state docs = (demo_state docs)\<lparr>graph_chain := None\<rparr>"

definition unavailable_env :: "(document list, nat) env" where
  "unavailable_env = (demo_env sorted_list_of_set)\<lparr>LANGGRAPH_AVAILABLE := False\<rparr>"





text \<open>A splitter for the fixtures: it cuts a text once, after \<open>chunk_size\<close> characters.\<close>

definition demo_splitter :: "int \<Rightarrow> int \<Rightarrow> exn + (string \<Rightarrow> string list)" where
  "demo_splitter chunk_size chunk_overlap =
     (if chunk_overlap > chunk_size then Inl ''ValueError''
      else Inr (\<lambda>t. [take (nat chunk_size) t, drop (nat chunk_size) t]))"

section \<open>The two variants, step by step\<close>

lemma fold_set_add: "fold (\<lambda>d S. set_add S (f d)) docs S0 = S0 @ map f docs"
  by (induction docs arbitrary: S0) (auto simp add: set_add_def)

lemma retriever_invoke_cases:
  "retriever_invoke env vs k q =
     (case embed_query env q of
        Inl e \<Rightarrow> (Inl e, [EmbedCall q])
      | Inr v \<Rightarrow>
          (case similarity_search env vs v k of
             Inl e \<Rightarrow> (Inl e, [EmbedCall q])
           | Inr docs \<Rightarrow> (Inr docs, [EmbedCall q, Retrieved docs])))"
  by (simp add: retriever_invoke_def bind_eff_def emit_def port_def ret_def split: sum.splits)

lemma answer_with_sources_pipeline:
  "answer_with_sources env (RetrievalChain vs k) q = pipeline env vs k Chain q"
  by (simp add: answer_with_sources_def retriever_invoke_cases pipeline_def bind_eff_def emit_def
        port_def ret_def or_list_def fold_set_add Let_def
      split: sum.splits prod.splits)

lemma answer_with_langgraph_pipeline:
  "answer_with_langgraph env (GraphChain vs k) q = pipeline env vs k Graph q"
  by (simp add: answer_with_langgraph_def retrieve_def generate_def retriever_invoke_cases
        pipeline_def bind_eff_def emit_def port_def ret_def Let_def fold_set_add
      split: sum.splits prod.splits)

lemma invoked_pipeline: "invoked (snd (pipeline env vs k e q)) = []"
  by (simp add: pipeline_def split: sum.splits)

lemma pipeline_answered:
  "pipeline env vs k e q = (Inr (a, S), tr) \<Longrightarrow>
   \<exists>docs. tr = [EmbedCall q, Retrieved docs, GenerateCall (context_of e docs) q] \<and>
          S = map (source_of e) docs"
  by (auto simp add: pipeline_def split: sum.splits)

lemma invoked_respond: "invoked (snd (snd (respond env st e run))) = e # invoked (snd run)"
  by (cases run) (auto simp add: respond_def split: sum.splits)

lemma respond_no_400: "fst (respond env st e run) \<noteq> Inl (HTTPException 400 m)"
  by (cases run) (auto simp add: respond_def split: sum.splits)

lemma respond_answered:
  "respond env st e run = (Inr resp, st', tr) \<Longrightarrow>
   \<exists>a S tr0. run = (Inr (a, S), tr0) \<and> tr = Invoke e # tr0 \<and>
             resp = \<lparr>answer = a, sources = set_iter env S\<rparr>"
  by (cases run) (auto simp add: respond_def split: sum.splits)

lemma use_graph_has_chain: "use_graph env st eng \<Longrightarrow> \<exists>g. graph_chain st = Some g"
  by (induction env st eng rule: use_graph.induct) auto

text \<open>
  A request that passes both guards runs one pipeline: the staged one when \<open>use_graph\<close>
  holds, the chain otherwise, over the index and the \<open>k\<close> the pipeline was built with.
\<close>

lemma ask_runs:
  assumes "vectorstore st = Some vs" and "strip (question req) \<noteq> []"
  shows "\<exists>st' vs' k.
           ask env st req eng =
             respond env st' (if use_graph env st eng then Graph else Chain)
               (pipeline env vs' k (if use_graph env st eng then Graph else Chain)
                  (strip (question req)))"
proof (cases "use_graph env st eng")
  case True
  then obtain g where g: "graph_chain st = Some g"
    using use_graph_has_chain by blast
  obtain vs' k where gk: "g = GraphChain vs' k" by (cases g)
  show ?thesis using assms True g gk
    by (auto simp add: ask_def answer_with_langgraph_pipeline)
next
  case False
  show ?thesis
  proof (cases "retrieval_chain st")
    case None
    then show ?thesis using assms False
      by (auto simp add: ask_def build_retrieval_chain_def answer_with_sources_pipeline
          split: option.splits)
  next
    case (Some c)
    obtain vs' k where "c = RetrievalChain vs' k" by (cases c)
    then show ?thesis using assms False Some
      by (auto simp add: ask_def answer_with_sources_pipeline split: option.splits)
  qed
qed

lemma fst_respond: "fst (respond env st e run) = http_result env (fst run)"
  by (cases run) (auto simp add: respond_def split: sum.splits)

lemma state_respond: "fst (snd (respond env st e run)) = st"
  by (cases run) (auto simp add: respond_def split: sum.splits)

lemma trace_respond: "snd (snd (respond env st e run)) = Invoke e # snd run"
  by (cases run) (auto simp add: respond_def split: sum.splits)

lemma invoked_ask:
  assumes "vectorstore st = Some vs" and "strip (question req) \<noteq> []"
  shows "invoked (snd (snd (ask env st req eng))) = [if use_graph env st eng then Graph else Chain]"
proof -
  obtain st' vs' k where
    "ask env st req eng =
       respond env st' (if use_graph env st eng then Graph else Chain)
         (pipeline env vs' k (if use_graph env st eng then Graph else Chain) (strip (question req)))"
    using ask_runs [OF assms] by blast
  then show ?thesis by (simp add: invoked_respond invoked_pipeline)
qed

lemma ask_default_irrelevant:
  "fst (ask env (st\<lparr>use_langgraph := b\<rparr>) req (Some e)) = fst (ask env st req (Some e)) \<and>
   snd (snd (ask env (st\<lparr>use_langgraph := b\<rparr>) req (Some e))) = snd (snd (ask env st req (Some e)))"
  by (cases e) (simp_all add: ask_def fst_respond trace_respond split: option.splits bool.splits)

lemma ask_served_by_chain:
  assumes "vectorstore st = Some vs" and "strip (question req) \<noteq> []"
    and "\<not> use_graph env st eng"
  shows "served_by_chain env st vs req (ask env st req eng)"
  using assms
  by (cases "retrieval_chain st")
     (simp_all add: ask_def served_by_chain_def chain_in_use_def fst_respond state_respond
        trace_respond)

lemma ask_served_by_staged:
  assumes "vectorstore st = Some vs" and "strip (question req) \<noteq> []"
    and "use_graph env st eng"
  shows "served_by_staged env st req (ask env st req eng)"
proof -
  obtain g where "graph_chain st = Some g" using use_graph_has_chain [OF assms(3)] by blast
  then show ?thesis using assms
    by (simp add: ask_def served_by_staged_def fst_respond state_respond trace_respond)
qed

section \<open>The guards of \<open>/ask\<close>\<close>

lemma strip_whitespace_only: "\<forall>c\<in>set s. py_isspace c \<Longrightarrow> strip s = []"
proof -
  assume "\<forall>c\<in>set s. py_isspace c"
  then have h: "dropWhile py_isspace s = []" by (simp only: dropWhile_eq_Nil_conv)
  show ?thesis unfolding strip_def h by simp
qed

text \<open>
  Claim C5. A request made while no index exists (\<open>app.state.vectorstore is None\<close>) is
  answered with the status 400 and the message that the knowledge base is empty; the state
  is unchanged and the trace is empty: neither the Embedding Port nor the Generation Port
  is called.
\<close>

theorem ask_empty_index:
  "vectorstore st = None \<Longrightarrow>
   ask env st req eng =
     (Inl (HTTPException 400 ''Knowledge base is empty. Upload documents via /upload first.''),
      st, [])"
  by (simp add: ask_def)

theorem ask_empty_index_witness:
  "vectorstore empty_state = None \<and>
   ask (demo_env sorted_list_of_set) empty_state \<lparr>question = [72, 105, 63]\<rparr> (Some Chain) =
     (Inl (HTTPException 400 ''Knowledge base is empty. Upload documents via /upload first.''),
      empty_state, [])"
proof -
  have h: "vectorstore empty_state = None" by (simp add: empty_state_def)
  show ?thesis using h ask_empty_index [OF h] by simp
qed

text \<open>
  Claim C6. With an index present, a request whose question is the empty string is answered
  with the status 400 (\<open>Question must not be empty.\<close>); the trace is empty, so the
  Embedding Port is not called.
\<close>

theorem ask_empty_question:
  "vectorstore st = Some vs \<Longrightarrow> question req = [] \<Longrightarrow>
   ask env st req eng = (Inl (HTTPException 400 ''Question must not be empty.''), st, [])"
  by (simp add: ask_def strip_def)

theorem ask_empty_question_witness:
  "vectorstore (demo_state [demo_doc ''a.txt'']) = Some [demo_doc ''a.txt''] \<and>
   question \<lparr>question = []\<rparr> = [] \<and>
   ask (demo_env sorted_list_of_set) (demo_state [demo_doc ''a.txt'']) \<lparr>question = []\<rparr> None =
     (Inl (HTTPException 400 ''Question must not be empty.''), demo_state [demo_doc ''a.txt''], [])"
proof -
  have h1: "vectorstore (demo_state [demo_doc ''a.txt'']) = Some [demo_doc ''a.txt'']"
    by (simp add: demo_state_def)
  have h2: "question \<lparr>question = []\<rparr> = []" by simp
  show ?thesis using h1 ask_empty_question [OF h1 h2] by simp
qed

text \<open>
  Claim C10. With an index present, a request whose question consists of whitespace only
  gets what the empty question gets: the question is stripped before it is tested, the
  status is 400 with the same message, and the trace is empty.
\<close>

theorem ask_whitespace_question:
  "vectorstore st = Some vs \<Longrightarrow> \<forall>c\<in>set (question req). py_isspace c \<Longrightarrow>
   ask env st req eng = ask env st (req\<lparr>question := []\<rparr>) eng \<and>
   ask env st req eng = (Inl (HTTPException 400 ''Question must not be empty.''), st, [])"
proof -
  assume vs: "vectorstore st = Some vs" and ws: "\<forall>c\<in>set (question req). py_isspace c"
  have e: "strip (question req) = []" using ws by (rule strip_whitespace_only)
  have e0: "strip [] = []" by (simp add: strip_def)
  show ?thesis using vs e e0 by (simp add: ask_def)
qed

theorem ask_whitespace_question_witness:
  "vectorstore (demo_state [demo_doc ''a.txt'']) = Some [demo_doc ''a.txt''] \<and>
   py_isspace 32 \<and> py_isspace 9 \<and> py_isspace 10 \<and> py_isspace 160 \<and> py_isspace 8195 \<and>
   ask (demo_env sorted_list_of_set) (demo_state [demo_doc ''a.txt''])
       \<lparr>question = [32, 9, 10, 160, 8195]\<rparr> (Some Graph) =
     (Inl (HTTPException 400 ''Question must not be empty.''), demo_state [demo_doc ''a.txt''], [])"
proof -
  have h1: "vectorstore (demo_state [demo_doc ''a.txt'']) = Some [demo_doc ''a.txt'']"
    by (simp add: demo_state_def)
  have h2: "\<forall>c\<in>set (question \<lparr>question = [32, 9, 10, 160, 8195]\<rparr>). py_isspace c"
    by (simp add: py_isspace_def)
  have c: "ask (demo_env sorted_list_of_set) (demo_state [demo_doc ''a.txt''])
              \<lparr>question = [32, 9, 10, 160, 8195]\<rparr> (Some Graph) =
            (Inl (HTTPException 400 ''Question must not be empty.''),
             demo_state [demo_doc ''a.txt''], [])"
    using ask_whitespace_question [OF h1 h2] by (rule conjunct2)
  show ?thesis using h1 c by (simp add: py_isspace_def)
qed

section \<open>The pipeline selector\<close>

lemma demo_guards:
  "vectorstore (demo_state docs) = Some docs"
  "vectorstore (chain_only_state docs) = Some docs"
  "strip [72, 105, 63] = [72, 105, 63]"
  by (simp_all add: demo_state_def chain_only_state_def strip_def py_isspace_def)

lemma demo_variants:
  "answer_with_sources (demo_env it) (RetrievalChain docs 4) q =
     (Inr (''Paris'', map (source_of Chain) (take 4 docs)),
      [EmbedCall q, Retrieved (take 4 docs), GenerateCall (context_of Chain (take 4 docs)) q])"
  "answer_with_langgraph (demo_env it) (GraphChain docs 4) q =
     (Inr (''Paris'', map (source_of Graph) (take 4 docs)),
      [EmbedCall q, Retrieved (take 4 docs), GenerateCall (context_of Graph (take 4 docs)) q])"
  by (simp_all add: answer_with_sources_pipeline answer_with_langgraph_pipeline pipeline_def
        demo_env_def)

lemma demo_doc_simps:
  "page_content (demo_doc s) = ''Paris is the capital of France.''"
  "metadata (demo_doc s) ''source'' = Some s"
  by (simp_all add: demo_doc_def)

lemma demo_iter: "set_iter (demo_env it) S = it (set S)"
  by (simp add: demo_env_def)

lemma demo_settings: "LANGGRAPH_AVAILABLE (demo_env it)" "TOP_K (demo_env it) = 4"
  by (simp_all add: demo_env_def)

lemma demo_format_context: "format_context [demo_doc ''a.txt''] = ''[1] (a.txt)\<newline>Paris is the capital of France.''"
  by code_simp


text \<open>
  Claim C2. For a request that passes both guards (an index exists, the stripped question is
  not empty): an explicit \<open>chain\<close> is served by the chain variant, whatever the default;
  with no explicit choice the request is served by the staged variant exactly when the
  default preference holds and the staged pipeline is available (the module loaded and the
  pipeline built), and by the chain variant otherwise; an explicit \<open>graph\<close> is served by
  the staged variant when it is available; and under an explicit choice neither the result
  nor the trace depends on the default preference. Served by a variant means: the result,
  the state and the port calls are those of that variant's function, \<open>answer_with_sources\<close>
  or \<open>answer_with_langgraph\<close>, on the stripped question.
\<close>

theorem selector_precedence:
  assumes "vectorstore st = Some vs" and "strip (question req) \<noteq> []"
  shows "served_by_chain env st vs req (ask env st req (Some Chain)) \<and>
         (if use_langgraph st \<and> LANGGRAPH_AVAILABLE env \<and> graph_chain st \<noteq> None
          then served_by_staged env st req (ask env st req None)
          else served_by_chain env st vs req (ask env st req None)) \<and>
         (LANGGRAPH_AVAILABLE env \<and> graph_chain st \<noteq> None \<longrightarrow>
            served_by_staged env st req (ask env st req (Some Graph))) \<and>
         invoked (snd (snd (ask env st req (Some Chain)))) = [Chain] \<and>
         invoked (snd (snd (ask env st req None))) =
           [if use_langgraph st \<and> LANGGRAPH_AVAILABLE env \<and> graph_chain st \<noteq> None
            then Graph else Chain] \<and>
         (LANGGRAPH_AVAILABLE env \<and> graph_chain st \<noteq> None \<longrightarrow>
            invoked (snd (snd (ask env st req (Some Graph)))) = [Graph]) \<and>
         (\<forall>e b. fst (ask env (st\<lparr>use_langgraph := b\<rparr>) req (Some e)) = fst (ask env st req (Some e)) \<and>
                snd (snd (ask env (st\<lparr>use_langgraph := b\<rparr>) req (Some e))) =
                  snd (snd (ask env st req (Some e))))"
proof (intro conjI allI impI)
  show "served_by_chain env st vs req (ask env st req (Some Chain))"
    using ask_served_by_chain [OF assms, of env "Some Chain"] by simp
  show "if use_langgraph st \<and> LANGGRAPH_AVAILABLE env \<and> graph_chain st \<noteq> None
        then served_by_staged env st req (ask env st req None)
        else served_by_chain env st vs req (ask env st req None)"
    using ask_served_by_chain [OF assms, of env None] ask_served_by_staged [OF assms, of env None]
    by simp
  show "served_by_staged env st req (ask env st req (Some Graph))"
    if "LANGGRAPH_AVAILABLE env \<and> graph_chain st \<noteq> None"
    using that ask_served_by_staged [OF assms, of env "Some Graph"] by simp
  show "invoked (snd (snd (ask env st req (Some Chain)))) = [Chain]"
    using invoked_ask [OF assms, of env "Some Chain"] by simp
  show "invoked (snd (snd (ask env st req None))) =
          [if use_langgraph st \<and> LANGGRAPH_AVAILABLE env \<and> graph_chain st \<noteq> None
           then Graph else Chain]"
    using invoked_ask [OF assms, of env None] by simp
  show "invoked (snd (snd (ask env st req (Some Graph)))) = [Graph]"
    if "LANGGRAPH_AVAILABLE env \<and> graph_chain st \<noteq> None"
    using that invoked_ask [OF assms, of env "Some Graph"] by simp
  show "fst (ask env (st\<lparr>use_langgraph := b\<rparr>) req (Some e)) = fst (ask env st req (Some e))"
    for e b by (simp add: ask_default_irrelevant)
  show "snd (snd (ask env (st\<lparr>use_langgraph := b\<rparr>) req (Some e))) =
          snd (snd (ask env st req (Some e)))"
    for e b by (simp add: ask_default_irrelevant)
qed

theorem selector_precedence_witness:
  "vectorstore (demo_state [demo_doc ''a.txt'']) = Some [demo_doc ''a.txt''] \<and>
   strip (question \<lparr>question = [72, 105, 63]\<rparr>) \<noteq> [] \<and>
   snd (snd (ask (demo_env sorted_list_of_set) (demo_state [demo_doc ''a.txt''])
               \<lparr>question = [72, 105, 63]\<rparr> (Some Chain))) =
     [Invoke Chain, EmbedCall [72, 105, 63], Retrieved [demo_doc ''a.txt''],
      GenerateCall ''Paris is the capital of France.'' [72, 105, 63]] \<and>
   snd (snd (ask (demo_env sorted_list_of_set) (demo_state [demo_doc ''a.txt''])
               \<lparr>question = [72, 105, 63]\<rparr> None)) =
     [Invoke Graph, EmbedCall [72, 105, 63], Retrieved [demo_doc ''a.txt''],
      GenerateCall ''[1] (a.txt)\<newline>Paris is the capital of France.'' [72, 105, 63]] \<and>
   snd (snd (ask (demo_env sorted_list_of_set) (demo_state [demo_doc ''a.txt''])
               \<lparr>question = [72, 105, 63]\<rparr> (Some Graph))) =
     [Invoke Graph, EmbedCall [72, 105, 63], Retrieved [demo_doc ''a.txt''],
      GenerateCall ''[1] (a.txt)\<newline>Paris is the capital of France.'' [72, 105, 63]] \<and>
   snd (snd (ask (demo_env sorted_list_of_set)
               ((demo_state [demo_doc ''a.txt''])\<lparr>use_langgraph := False\<rparr>)
               \<lparr>question = [72, 105, 63]\<rparr> None)) =
     [Invoke Chain, EmbedCall [72, 105, 63], Retrieved [demo_doc ''a.txt''],
      GenerateCall ''Paris is the capital of France.'' [72, 105, 63]] \<and>
   fst (ask (demo_env sorted_list_of_set) (demo_state [demo_doc ''a.txt''])
          \<lparr>question = [72, 105, 63]\<rparr> (Some Chain)) =
     Inr \<lparr>answer = ''Paris'', sources = [''a.txt'']\<rparr>"
proof -
  let ?E = "demo_env sorted_list_of_set"
  let ?st = "demo_state [demo_doc ''a.txt'']"
  let ?rq = "\<lparr>question = [72, 105, 63]\<rparr>"
  have h1: "vectorstore ?st = Some [demo_doc ''a.txt'']"
    by (simp add: demo_guards)
  have h1': "vectorstore (?st\<lparr>use_langgraph := False\<rparr>) = Some [demo_doc ''a.txt'']"
    by (simp add: demo_guards)
  have h2: "strip (question ?rq) \<noteq> []"
    by (simp add: demo_guards)
  have st: "chain_in_use ?E ?st [demo_doc ''a.txt''] = RetrievalChain [demo_doc ''a.txt''] 4"
    "chain_in_use ?E (?st\<lparr>use_langgraph := False\<rparr>) [demo_doc ''a.txt''] =
       RetrievalChain [demo_doc ''a.txt''] 4"
    "graph_chain ?st = Some (GraphChain [demo_doc ''a.txt''] 4)"
    "use_langgraph ?st" "LANGGRAPH_AVAILABLE ?E"
    by (simp_all add: chain_in_use_def demo_state_def demo_env_def build_retrieval_chain_def
          build_langgraph_chain_def)
  have c: "served_by_chain ?E ?st [demo_doc ''a.txt''] ?rq (ask ?E ?st ?rq (Some Chain))"
    and n: "served_by_staged ?E ?st ?rq (ask ?E ?st ?rq None)"
    and g: "served_by_staged ?E ?st ?rq (ask ?E ?st ?rq (Some Graph))"
    using selector_precedence [OF h1 h2, of ?E] st(3,4,5) by simp_all
  have d: "served_by_chain ?E (?st\<lparr>use_langgraph := False\<rparr>) [demo_doc ''a.txt''] ?rq
             (ask ?E (?st\<lparr>use_langgraph := False\<rparr>) ?rq None)"
    using selector_precedence [OF h1' h2, of ?E] by simp
  have 1: "snd (snd (ask ?E ?st ?rq (Some Chain))) =
             [Invoke Chain, EmbedCall [72, 105, 63], Retrieved [demo_doc ''a.txt''],
              GenerateCall ''Paris is the capital of France.'' [72, 105, 63]]"
    and 5: "fst (ask ?E ?st ?rq (Some Chain)) = Inr \<lparr>answer = ''Paris'', sources = [''a.txt'']\<rparr>"
    using c by (simp_all add: served_by_chain_def st demo_variants demo_guards demo_doc_simps
          demo_iter)
  have 2: "snd (snd (ask ?E ?st ?rq None)) =
             [Invoke Graph, EmbedCall [72, 105, 63], Retrieved [demo_doc ''a.txt''],
              GenerateCall ''[1] (a.txt)\<newline>Paris is the capital of France.'' [72, 105, 63]]"
    using n by (simp add: served_by_staged_def st demo_variants demo_guards demo_format_context)
  have 3: "snd (snd (ask ?E ?st ?rq (Some Graph))) =
             [Invoke Graph, EmbedCall [72, 105, 63], Retrieved [demo_doc ''a.txt''],
              GenerateCall ''[1] (a.txt)\<newline>Paris is the capital of France.'' [72, 105, 63]]"
    using g by (simp add: served_by_staged_def st demo_variants demo_guards demo_format_context)
  have 4: "snd (snd (ask ?E (?st\<lparr>use_langgraph := False\<rparr>) ?rq None)) =
             [Invoke Chain, EmbedCall [72, 105, 63], Retrieved [demo_doc ''a.txt''],
              GenerateCall ''Paris is the capital of France.'' [72, 105, 63]]"
    using d by (simp add: served_by_chain_def st demo_variants demo_guards demo_doc_simps)
  show ?thesis using h1 h2 1 2 3 4 5 by simp
qed

text \<open>
  Claim C1, as stated, fails: an explicit \<open>graph\<close> while the staged pipeline is unavailable
  (the module did not load and no staged pipeline was built) is answered by the chain
  variant with a normal response, not with an input error.
\<close>

theorem explicit_graph_unavailable_counterexample:
  "ask unavailable_env (chain_only_state [demo_doc ''a.txt'']) \<lparr>question = [72, 105, 63]\<rparr>
     (Some Graph) =
     (Inr \<lparr>answer = ''Paris'', sources = [''a.txt'']\<rparr>, chain_only_state [demo_doc ''a.txt''],
      [Invoke Chain, EmbedCall [72, 105, 63], Retrieved [demo_doc ''a.txt''],
       GenerateCall ''Paris is the capital of France.'' [72, 105, 63]])"
  by (simp add: ask_def unavailable_env_def chain_only_state_def demo_state_def demo_env_def
        demo_doc_def strip_def py_isspace_def respond_def answer_with_sources_pipeline
        pipeline_def build_retrieval_chain_def)

text \<open>
  Claim C1, amended. For a request that passes both guards and selects \<open>graph\<close> while the
  staged pipeline is unavailable, \<open>ask\<close> does exactly what it does for an explicit
  \<open>chain\<close>: the chain variant runs, and the result is never an input error (status 400).
\<close>

theorem explicit_graph_unavailable_falls_back:
  assumes "vectorstore st = Some vs" and "strip (question req) \<noteq> []"
    and "\<not> (LANGGRAPH_AVAILABLE env \<and> graph_chain st \<noteq> None)"
  shows "ask env st req (Some Graph) = ask env st req (Some Chain) \<and>
         invoked (snd (snd (ask env st req (Some Graph)))) = [Chain] \<and>
         (\<forall>m. fst (ask env st req (Some Graph)) \<noteq> Inl (HTTPException 400 m))"
proof -
  have ug: "\<not> use_graph env st (Some Graph)" using assms(3) by simp
  have same: "ask env st req (Some Graph) = ask env st req (Some Chain)"
    using assms ug by (auto simp add: ask_def split: option.splits)
  obtain st' vs' k where
    "ask env st req (Some Graph) =
       respond env st' Chain (pipeline env vs' k Chain (strip (question req)))"
    using ask_runs [OF assms(1,2), of env "Some Graph"] ug by auto
  then have "\<forall>m. fst (ask env st req (Some Graph)) \<noteq> Inl (HTTPException 400 m)"
    by (simp add: respond_no_400)
  then show ?thesis using same invoked_ask [OF assms(1,2), of env "Some Graph"] ug by simp
qed

theorem explicit_graph_unavailable_falls_back_witness:
  "vectorstore (chain_only_state [demo_doc ''a.txt'']) = Some [demo_doc ''a.txt''] \<and>
   strip (question \<lparr>question = [72, 105, 63]\<rparr>) \<noteq> [] \<and>
   \<not> LANGGRAPH_AVAILABLE unavailable_env \<and>
   ask unavailable_env (chain_only_state [demo_doc ''a.txt'']) \<lparr>question = [72, 105, 63]\<rparr>
     (Some Graph) =
   ask unavailable_env (chain_only_state [demo_doc ''a.txt'']) \<lparr>question = [72, 105, 63]\<rparr>
     (Some Chain) \<and>
   invoked (snd (snd (ask unavailable_env (chain_only_state [demo_doc ''a.txt''])
                        \<lparr>question = [72, 105, 63]\<rparr> (Some Graph)))) = [Chain]"
proof -
  have h1: "vectorstore (chain_only_state [demo_doc ''a.txt'']) = Some [demo_doc ''a.txt'']"
    by (simp add: demo_guards)
  have h2: "strip (question \<lparr>question = [72, 105, 63]\<rparr>) \<noteq> []"
    by (simp add: demo_guards)
  have h3: "\<not> (LANGGRAPH_AVAILABLE unavailable_env \<and>
                graph_chain (chain_only_state [demo_doc ''a.txt'']) \<noteq> None)"
    by (simp add: unavailable_env_def demo_env_def)
  have h4: "\<not> LANGGRAPH_AVAILABLE unavailable_env"
    by (simp add: unavailable_env_def demo_env_def)
  show ?thesis
    using h1 h2 h4 explicit_graph_unavailable_falls_back [OF h1 h2 h3] by blast
qed

section \<open>The sources of an answer\<close>

lemma ask_answered:
  assumes "ask env st req eng = (Inr resp, st', tr)"
  shows "\<exists>e docs. tr = [Invoke e, EmbedCall (strip (question req)), Retrieved docs,
                         GenerateCall (context_of e docs) (strip (question req))] \<and>
                   sources resp = set_iter env (map (source_of e) docs)"
proof -
  obtain vs where vs: "vectorstore st = Some vs"
    using assms by (cases "vectorstore st") (auto simp add: ask_def)
  have q: "strip (question req) \<noteq> []"
    using assms vs by (auto simp add: ask_def split: if_splits)
  obtain st0 vs' k e where
    "ask env st req eng = respond env st0 e (pipeline env vs' k e (strip (question req)))"
    using ask_runs [OF vs q] by blast
  then have r: "respond env st0 e (pipeline env vs' k e (strip (question req))) = (Inr resp, st', tr)"
    using assms by simp
  obtain a S tr0 where
    p: "pipeline env vs' k e (strip (question req)) = (Inr (a, S), tr0)" and
    t: "tr = Invoke e # tr0" and s: "resp = \<lparr>answer = a, sources = set_iter env S\<rparr>"
    using respond_answered [OF r] by blast
  obtain docs where
    "tr0 = [EmbedCall (strip (question req)), Retrieved docs,
            GenerateCall (context_of e docs) (strip (question req))]" and
    "S = map (source_of e) docs"
    using pipeline_answered [OF p] by blast
  then show ?thesis using t s by auto
qed

lemma count_list_distinct: "distinct xs \<Longrightarrow> x \<in> set xs \<Longrightarrow> count_list xs x = 1"
  by (induction xs) auto

lemma set_first_occurrences: "set (first_occurrences xs) = set xs"
  by (induction xs) auto

lemma distinct_first_occurrences: "distinct (first_occurrences xs)"
  by (induction xs) (auto simp add: set_first_occurrences)

lemma sorted_two_sources: "sorted_list_of_set {''a.txt'', ''b.txt''} = [''a.txt'', ''b.txt'']"
  by code_simp

lemma demo_answered:
  "ask (demo_env it) (demo_state docs) \<lparr>question = [72, 105, 63]\<rparr> (Some Chain) =
     (Inr \<lparr>answer = ''Paris'', sources = it (set (map (source_of Chain) (take 4 docs)))\<rparr>,
      demo_state docs,
      [Invoke Chain, EmbedCall [72, 105, 63], Retrieved (take 4 docs),
       GenerateCall (context_of Chain (take 4 docs)) [72, 105, 63]])"
  "ask (demo_env it) (demo_state docs) \<lparr>question = [72, 105, 63]\<rparr> None =
     (Inr \<lparr>answer = ''Paris'', sources = it (set (map (source_of Graph) (take 4 docs)))\<rparr>,
      demo_state docs,
      [Invoke Graph, EmbedCall [72, 105, 63], Retrieved (take 4 docs),
       GenerateCall (context_of Graph (take 4 docs)) [72, 105, 63]])"
  by (simp_all add: ask_def demo_state_def demo_guards respond_def demo_iter demo_settings
        build_retrieval_chain_def build_langgraph_chain_def demo_variants)

text \<open>
  Claim C3, as stated, fails. The order in which a set of strings is iterated depends on the
  hash values the strings have in the process. In a process where the set of \<open>a.txt\<close> and
  \<open>b.txt\<close> is iterated with \<open>b.txt\<close> first, a request that retrieves a chunk of \<open>a.txt\<close>
  and then a chunk of \<open>b.txt\<close> is answered with the sources \<open>b.txt\<close>, \<open>a.txt\<close>, while
  the order of first occurrence is \<open>a.txt\<close>, \<open>b.txt\<close>.
\<close>

theorem sources_order_counterexample:
  "ask (demo_env (\<lambda>S. rev (sorted_list_of_set S)))
       (demo_state [demo_doc ''a.txt'', demo_doc ''b.txt''])
       \<lparr>question = [72, 105, 63]\<rparr> (Some Chain) =
     (Inr \<lparr>answer = ''Paris'', sources = [''b.txt'', ''a.txt'']\<rparr>,
      demo_state [demo_doc ''a.txt'', demo_doc ''b.txt''],
      [Invoke Chain, EmbedCall [72, 105, 63],
       Retrieved [demo_doc ''a.txt'', demo_doc ''b.txt''],
       GenerateCall (context_of Chain [demo_doc ''a.txt'', demo_doc ''b.txt'']) [72, 105, 63]]) \<and>
   first_occurrences (map (source_of Chain) [demo_doc ''a.txt'', demo_doc ''b.txt'']) =
     [''a.txt'', ''b.txt'']"
proof -
  let ?docs = "[demo_doc ''a.txt'', demo_doc ''b.txt'']"
  have src: "set (map (source_of Chain) ?docs) = {''a.txt'', ''b.txt''}"
    by (simp add: demo_doc_simps)
  have tk: "take 4 ?docs = ?docs" by simp
  have r: "rev [''a.txt'', ''b.txt''] = [''b.txt'', ''a.txt'']" by simp
  have a: "ask (demo_env (\<lambda>S. rev (sorted_list_of_set S))) (demo_state ?docs)
             \<lparr>question = [72, 105, 63]\<rparr> (Some Chain) =
           (Inr \<lparr>answer = ''Paris'', sources = [''b.txt'', ''a.txt'']\<rparr>, demo_state ?docs,
            [Invoke Chain, EmbedCall [72, 105, 63], Retrieved ?docs,
             GenerateCall (context_of Chain ?docs) [72, 105, 63]])"
    using demo_answered(1) [of "\<lambda>S. rev (sorted_list_of_set S)" ?docs]
    by (simp only: tk src sorted_two_sources r)
  have f: "first_occurrences (map (source_of Chain) ?docs) = [''a.txt'', ''b.txt'']"
    by (simp add: demo_doc_simps)
  show ?thesis using a f by (rule conjI)
qed

text \<open>
  Claim C3, amended. For every answered request, the sources of the response are what
  \<open>list\<close> returns for the set built by adding the identifiers of the retrieved chunks in
  rank order. They are the deduplicated identifiers, the same as in the order of first
  occurrence and each once, but in the order in which the set is iterated, which need not
  be the order of first occurrence.
\<close>

theorem sources_follow_set_order:
  assumes "ask env st req eng = (Inr resp, st', tr)"
    and "Invoke e \<in> set tr" and "Retrieved docs \<in> set tr"
  shows "sources resp = set_iter env (map (source_of e) docs) \<and>
         (lists_each_once (set_iter env) \<longrightarrow>
            distinct (sources resp) \<and>
            set (sources resp) = set (first_occurrences (map (source_of e) docs)) \<and>
            length (sources resp) = length (first_occurrences (map (source_of e) docs)))"
proof -
  obtain e' docs' where
    tr: "tr = [Invoke e', EmbedCall (strip (question req)), Retrieved docs',
               GenerateCall (context_of e' docs') (strip (question req))]" and
    s: "sources resp = set_iter env (map (source_of e') docs')"
    using ask_answered [OF assms(1)] by blast
  have "e' = e" and "docs' = docs" using assms(2,3) tr by auto
  then have s': "sources resp = set_iter env (map (source_of e) docs)" using s by simp
  have "distinct (sources resp) \<and>
        set (sources resp) = set (first_occurrences (map (source_of e) docs)) \<and>
        length (sources resp) = length (first_occurrences (map (source_of e) docs))"
    if l: "lists_each_once (set_iter env)"
  proof -
    have d: "distinct (sources resp)"
      and m: "set (sources resp) = set (map (source_of e) docs)"
      using l s' by (simp_all add: lists_each_once_def)
    have m': "set (sources resp) = set (first_occurrences (map (source_of e) docs))"
      using m by (simp only: set_first_occurrences)
    have "length (sources resp) = card (set (sources resp))"
      using d by (simp add: distinct_card)
    also have "\<dots> = card (set (first_occurrences (map (source_of e) docs)))"
      using m' by simp
    also have "\<dots> = length (first_occurrences (map (source_of e) docs))"
      by (simp add: distinct_card distinct_first_occurrences)
    finally show ?thesis using d m' by simp
  qed
  then show ?thesis using s' by simp
qed

theorem sources_follow_set_order_witness:
  "ask (demo_env sorted_list_of_set)
       (demo_state [demo_doc ''b.txt'', demo_doc ''a.txt'', demo_doc ''b.txt''])
       \<lparr>question = [72, 105, 63]\<rparr> None =
     (Inr \<lparr>answer = ''Paris'', sources = [''a.txt'', ''b.txt'']\<rparr>,
      demo_state [demo_doc ''b.txt'', demo_doc ''a.txt'', demo_doc ''b.txt''],
      [Invoke Graph, EmbedCall [72, 105, 63],
       Retrieved [demo_doc ''b.txt'', demo_doc ''a.txt'', demo_doc ''b.txt''],
       GenerateCall (context_of Graph [demo_doc ''b.txt'', demo_doc ''a.txt'', demo_doc ''b.txt''])
         [72, 105, 63]]) \<and>
   lists_each_once (set_iter (demo_env sorted_list_of_set)) \<and>
   sources \<lparr>answer = ''Paris'', sources = [''a.txt'', ''b.txt'']\<rparr> =
     set_iter (demo_env sorted_list_of_set)
       (map (source_of Graph) [demo_doc ''b.txt'', demo_doc ''a.txt'', demo_doc ''b.txt'']) \<and>
   set (sources \<lparr>answer = ''Paris'', sources = [''a.txt'', ''b.txt'']\<rparr>) =
     set (first_occurrences (map (source_of Graph)
       [demo_doc ''b.txt'', demo_doc ''a.txt'', demo_doc ''b.txt''])) \<and>
   length (sources \<lparr>answer = ''Paris'', sources = [''a.txt'', ''b.txt'']\<rparr>) =
     length (first_occurrences (map (source_of Graph)
       [demo_doc ''b.txt'', demo_doc ''a.txt'', demo_doc ''b.txt''])) \<and>
   first_occurrences (map (source_of Graph)
     [demo_doc ''b.txt'', demo_doc ''a.txt'', demo_doc ''b.txt'']) = [''b.txt'', ''a.txt'']"
proof -
  let ?docs = "[demo_doc ''b.txt'', demo_doc ''a.txt'', demo_doc ''b.txt'']"
  let ?tr = "[Invoke Graph, EmbedCall [72, 105, 63], Retrieved ?docs,
              GenerateCall (context_of Graph ?docs) [72, 105, 63]]"
  have src: "set (map (source_of Graph) ?docs) = {''a.txt'', ''b.txt''}"
    by (auto simp add: demo_doc_simps)
  have tk: "take 4 ?docs = ?docs" by simp
  have h: "ask (demo_env sorted_list_of_set) (demo_state ?docs) \<lparr>question = [72, 105, 63]\<rparr> None =
             (Inr \<lparr>answer = ''Paris'', sources = [''a.txt'', ''b.txt'']\<rparr>, demo_state ?docs, ?tr)"
    using demo_answered(2) [of sorted_list_of_set ?docs] by (simp only: tk src sorted_two_sources)
  have i: "Invoke Graph \<in> set ?tr" by simp
  have r: "Retrieved ?docs \<in> set ?tr" by simp
  have l: "lists_each_once (set_iter (demo_env sorted_list_of_set))"
    by (simp add: lists_each_once_def demo_iter)
  have f: "first_occurrences (map (source_of Graph) ?docs) = [''b.txt'', ''a.txt'']"
    by (simp add: demo_doc_simps)
  show ?thesis using h l f sources_follow_set_order [OF h i r] by blast
qed

text \<open>
  Claim C4. For every answered request, of either variant, whose iteration over the set of
  sources lists each element once: a source identifier (a non-empty string, as every chunk
  carries) found on a retrieved chunk occurs exactly once in the sources of the response,
  however many retrieved chunks carry it.
\<close>

theorem sources_listed_once:
  assumes "lists_each_once (set_iter env)"
    and "ask env st req eng = (Inr resp, st', tr)"
    and "Retrieved docs \<in> set tr"
    and "d \<in> set docs" and "metadata d ''source'' = Some s" and "s \<noteq> []"
  shows "count_list (sources resp) s = 1"
proof -
  obtain e docs' where
    tr: "tr = [Invoke e, EmbedCall (strip (question req)), Retrieved docs',
               GenerateCall (context_of e docs') (strip (question req))]" and
    s: "sources resp = set_iter env (map (source_of e) docs')"
    using ask_answered [OF assms(2)] by blast
  have docs: "docs' = docs" using assms(3) tr by auto
  have "source_of e d = s" using assms(5,6) by (cases e) auto
  then have mem: "s \<in> set (map (source_of e) docs)" using assms(4) by auto
  have "set (sources resp) = set (map (source_of e) docs)" and "distinct (sources resp)"
    using assms(1) s docs by (simp_all add: lists_each_once_def)
  then show ?thesis using mem by (simp add: count_list_distinct)
qed

theorem sources_listed_once_witness:
  "lists_each_once (set_iter (demo_env sorted_list_of_set)) \<and>
   ask (demo_env sorted_list_of_set)
       (demo_state [demo_doc ''a.txt'', demo_doc ''b.txt'', demo_doc ''a.txt''])
       \<lparr>question = [72, 105, 63]\<rparr> (Some Chain) =
     (Inr \<lparr>answer = ''Paris'', sources = [''a.txt'', ''b.txt'']\<rparr>,
      demo_state [demo_doc ''a.txt'', demo_doc ''b.txt'', demo_doc ''a.txt''],
      [Invoke Chain, EmbedCall [72, 105, 63],
       Retrieved [demo_doc ''a.txt'', demo_doc ''b.txt'', demo_doc ''a.txt''],
       GenerateCall (context_of Chain [demo_doc ''a.txt'', demo_doc ''b.txt'', demo_doc ''a.txt''])
         [72, 105, 63]]) \<and>
   count_list (map (\<lambda>d. metadata d ''source'')
     [demo_doc ''a.txt'', demo_doc ''b.txt'', demo_doc ''a.txt'']) (Some ''a.txt'') = 2 \<and>
   count_list (sources \<lparr>answer = ''Paris'', sources = [''a.txt'', ''b.txt'']\<rparr>) ''a.txt'' = 1"
proof -
  let ?docs = "[demo_doc ''a.txt'', demo_doc ''b.txt'', demo_doc ''a.txt'']"
  let ?tr = "[Invoke Chain, EmbedCall [72, 105, 63], Retrieved ?docs,
              GenerateCall (context_of Chain ?docs) [72, 105, 63]]"
  have src: "set (map (source_of Chain) ?docs) = {''a.txt'', ''b.txt''}"
    by (auto simp add: demo_doc_simps)
  have tk: "take 4 ?docs = ?docs" by simp
  have h: "ask (demo_env sorted_list_of_set) (demo_state ?docs) \<lparr>question = [72, 105, 63]\<rparr>
             (Some Chain) =
             (Inr \<lparr>answer = ''Paris'', sources = [''a.txt'', ''b.txt'']\<rparr>, demo_state ?docs, ?tr)"
    using demo_answered(1) [of sorted_list_of_set ?docs] by (simp only: tk src sorted_two_sources)
  have r: "Retrieved ?docs \<in> set ?tr" by simp
  have l: "lists_each_once (set_iter (demo_env sorted_list_of_set))"
    by (simp add: lists_each_once_def demo_iter)
  have d: "demo_doc ''a.txt'' \<in> set ?docs" by simp
  have m: "metadata (demo_doc ''a.txt'') ''source'' = Some ''a.txt''" by (simp add: demo_doc_simps)
  have n: "''a.txt'' \<noteq> []" by simp
  have c: "count_list (map (\<lambda>d. metadata d ''source'') ?docs) (Some ''a.txt'') = 2"
    by (simp add: demo_doc_simps)
  show ?thesis using l h c sources_listed_once [OF l h r d m n] by blast
qed

section \<open>Restoring the index\<close>



section \<open>The chunker's source identifiers\<close>

lemma split_documents_chunk:
  "c \<in> set (split_documents split_text docs) \<Longrightarrow>
   \<exists>d\<in>set docs. page_content c \<in> set (split_text (page_content d)) \<and> metadata c = metadata d"
  by (auto simp add: split_documents_def)

text \<open>
  Claim C8. Every chunk that \<open>split_text_documents\<close> returns carries a non-empty source.
  The chunk is a piece of the text of one of the input documents, and its source is
  \<open>unknown\<close> when that document's source is absent or empty, and that document's source
  otherwise.
\<close>

theorem chunks_carry_source:
  assumes "split_text_documents make_splitter docs chunk_size chunk_overlap = Inr chunks"
    and "c \<in> set chunks"
  shows "(\<exists>s. metadata c ''source'' = Some s \<and> s \<noteq> []) \<and>
         (\<exists>d\<in>set docs. \<exists>split_text.
            make_splitter chunk_size chunk_overlap = Inr split_text \<and>
            page_content c \<in> set (split_text (page_content d)) \<and>
            metadata c ''source'' =
              Some (case metadata d ''source'' of
                      None \<Rightarrow> ''unknown''
                    | Some s \<Rightarrow> if s = [] then ''unknown'' else s))"
proof -
  obtain split_text where mk: "make_splitter chunk_size chunk_overlap = Inr split_text"
    and chunks: "chunks = map (\<lambda>c. c\<lparr>metadata :=
                     (metadata c)(''source'' \<mapsto> or_str (metadata c ''source'') ''unknown'')\<rparr>)
                   (split_documents split_text docs)"
    using assms(1) by (auto simp add: split_text_documents_def split: sum.splits)
  obtain c0 where c0: "c0 \<in> set (split_documents split_text docs)"
    and c: "c = c0\<lparr>metadata := (metadata c0)(''source'' \<mapsto> or_str (metadata c0 ''source'') ''unknown'')\<rparr>"
    using assms(2) chunks by auto
  obtain d where d: "d \<in> set docs" "page_content c0 \<in> set (split_text (page_content d))"
    "metadata c0 = metadata d"
    using split_documents_chunk [OF c0] by blast
  have nonempty: "or_str x ''unknown'' \<noteq> []" for x by (cases x) auto
  have src: "metadata c ''source'' = Some (or_str (metadata d ''source'') ''unknown'')"
    using c d(3) by simp
  have "or_str (metadata d ''source'') ''unknown'' =
          (case metadata d ''source'' of None \<Rightarrow> ''unknown'' | Some s \<Rightarrow> if s = [] then ''unknown'' else s)"
    by (cases "metadata d ''source''") auto
  then show ?thesis using src nonempty mk d c by auto
qed

theorem chunks_carry_source_witness:
  "split_text_documents demo_splitter
     [\<lparr>page_content = ''Paris is the capital'', metadata = Map.empty\<rparr>,
      \<lparr>page_content = ''of France'', metadata = [''source'' \<mapsto> ''a.txt'']\<rparr>] 5 0 =
     Inr [\<lparr>page_content = ''Paris'', metadata = [''source'' \<mapsto> ''unknown'']\<rparr>,
          \<lparr>page_content = '' is the capital'', metadata = [''source'' \<mapsto> ''unknown'']\<rparr>,
          \<lparr>page_content = ''of Fr'', metadata = [''source'' \<mapsto> ''a.txt'']\<rparr>,
          \<lparr>page_content = ''ance'', metadata = [''source'' \<mapsto> ''a.txt'']\<rparr>] \<and>
   (\<exists>s. metadata \<lparr>page_content = ''Paris'', metadata = [''source'' \<mapsto> ''unknown'']\<rparr>
          ''source'' = Some s \<and> s \<noteq> [])"
proof -
  let ?docs = "[\<lparr>page_content = ''Paris is the capital'', metadata = Map.empty\<rparr>,
                \<lparr>page_content = ''of France'', metadata = [''source'' \<mapsto> ''a.txt'']\<rparr>]"
  let ?c = "\<lparr>page_content = ''Paris'', metadata = [''source'' \<mapsto> ''unknown'']\<rparr>"
  let ?chunks = "[?c,
          \<lparr>page_content = '' is the capital'', metadata = [''source'' \<mapsto> ''unknown'']\<rparr>,
          \<lparr>page_content = ''of Fr'', metadata = [''source'' \<mapsto> ''a.txt'']\<rparr>,
          \<lparr>page_content = ''ance'', metadata = [''source'' \<mapsto> ''a.txt'']\<rparr>]"
  have h: "split_text_documents demo_splitter ?docs 5 0 = Inr ?chunks"
    by (simp add: split_text_documents_def demo_splitter_def split_documents_def)
  have m: "?c \<in> set ?chunks" by simp
  show ?thesis using h chunks_carry_source [OF h m] by blast
qed

end
